theory Spec2Isabelle
  imports Main
begin

section \<open>The loadz0r chunk transformer (v8env/src/compiler/loader.ts)\<close>

text \<open>
  The plugin returned by \<open>loader\<close> has two hooks, \<open>options\<close> and \<open>transformChunk\<close>, that
  share the closure variables \<open>inputs\<close> and \<open>resolvedInputs\<close>. The closure is a record that
  every hook takes and returns; a \<open>throw\<close> is the left injection of a sum; the promises the
  hooks create live in a store, and the host settles them by events of their own.

  A JavaScript string is a list of code units. The model writes it as a HOL \<open>string\<close>, so a
  code unit is a \<open>char\<close>; nothing below looks inside a character of the chunk code.
\<close>

subsection \<open>Values, errors\<close>

text \<open>The values the build's \<open>input\<close> option can hold: nothing, \<open>null\<close>, one specifier, an
  array of specifiers, or an object from output names to specifiers (its properties in
  insertion order, each key once).\<close>

datatype jsval =
    Undefined
  | Null
  | Str string
  | Arr "string list"
  | Obj "(string \<times> string) list"

fun typeof :: "jsval \<Rightarrow> string" where
  "typeof Undefined = ''undefined''"
| "typeof Null = ''object''"
| "typeof (Str s) = ''string''"
| "typeof (Arr xs) = ''object''"
| "typeof (Obj kvs) = ''object''"

datatype error = Error string | TypeError

type_synonym 'a result = "error + 'a"

subsection \<open>\<open>Object.values\<close>\<close>

text \<open>The own enumerable properties of an ordinary object come in the order of
  \<open>OrdinaryOwnPropertyKeys\<close>: the keys that are array indices (canonical decimal numerals
  below \<open>2^32 - 1\<close>) first, in ascending numeric order, then every other string key in
  insertion order.\<close>

definition is_digit :: "char \<Rightarrow> bool" where
  "is_digit c = (48 \<le> (of_char c :: nat) \<and> (of_char c :: nat) \<le> 57)"

definition numeric_value :: "string \<Rightarrow> nat" where
  "numeric_value s = foldl (\<lambda>n c. 10 * n + ((of_char c :: nat) - 48)) 0 s"

definition is_array_index :: "string \<Rightarrow> bool" where
  "is_array_index s =
     (s \<noteq> [] \<and> list_all is_digit s \<and> (s = ''0'' \<or> hd s \<noteq> CHR ''0'')
      \<and> numeric_value s < 2 ^ 32 - 1)"

definition own_property_values :: "(string \<times> string) list \<Rightarrow> string list" where
  "own_property_values kvs =
     map snd (sort_key (\<lambda>kv. numeric_value (fst kv)) (filter (\<lambda>kv. is_array_index (fst kv)) kvs)
              @ filter (\<lambda>kv. \<not> is_array_index (fst kv)) kvs)"

fun Object_values :: "jsval \<Rightarrow> string list result" where
  "Object_values Undefined = Inl TypeError"
| "Object_values Null = Inl TypeError"
| "Object_values (Str s) = Inr (map (\<lambda>c. [c]) s)"
| "Object_values (Arr xs) = Inr xs"
| "Object_values (Obj kvs) = Inr (own_property_values kvs)"

subsection \<open>The \<open>magic-string\<close> editor\<close>

text \<open>\<open>MagicString\<close> (the imported \<open>magic-string\<close> package) keeps the original text and
  records edits against its offsets. Of the library the transformer uses the constructor,
  \<open>remove\<close>, \<open>prepend\<close>, \<open>toString\<close> and \<open>generateMap\<close>. \<open>kept\<close> says for each original
  character whether it is still there. The library's \<open>remove(start, end)\<close> returns at once
  on an empty range, throws \<open>Character is out of bounds\<close> when \<open>end\<close> lies beyond the
  original text and \<open>end must be greater than start\<close> when the range is reversed; its
  offsets are naturals here, the transformer passing 0 and 7.\<close>

record magic_string =
  original :: string
  intro :: string
  outro :: string
  kept :: "bool list"

definition MagicString :: "string \<Rightarrow> magic_string" where
  "MagicString str =
     \<lparr>original = str, intro = [], outro = [], kept = replicate (length str) True\<rparr>"

definition remove :: "nat \<Rightarrow> nat \<Rightarrow> magic_string \<Rightarrow> magic_string result" where
  "remove start end ms =
     (if start = end then Inr ms
      else if end > length (original ms) then Inl (Error ''Character is out of bounds'')
      else if start > end then Inl (Error ''end must be greater than start'')
      else Inr (ms\<lparr>kept := take start (kept ms) @ replicate (end - start) False
                              @ drop end (kept ms)\<rparr>))"

definition prepend :: "string \<Rightarrow> magic_string \<Rightarrow> magic_string" where
  "prepend content ms = ms\<lparr>intro := content @ intro ms\<rparr>"

definition toString :: "magic_string \<Rightarrow> string" where
  "toString ms =
     intro ms @ map fst (filter snd (zip (original ms) (kept ms))) @ outro ms"

text \<open>The source map is a function of the edit state and of the \<open>hires\<close> option; its
  segments are not modelled.\<close>

datatype source_map = SourceMap bool magic_string

definition generateMap :: "bool \<Rightarrow> magic_string \<Rightarrow> source_map" where
  "generateMap hires ms = SourceMap hires ms"

definition startsWith :: "string \<Rightarrow> string \<Rightarrow> bool" where
  "startsWith s p = (take (length p) s = p)"

subsection \<open>Promises\<close>

text \<open>A promise is an entry of the store, named by its index. \<open>Host s\<close> is the promise that
  \<open>this.resolveId(s)\<close> returned; the host settles it. \<open>All hs\<close> is \<open>Promise.all\<close> of the
  promises \<open>hs\<close>. The promise that \<open>then\<close> returns is not stored: it is the pair of the
  promise it waits for and the value its callback returns.\<close>

datatype promise = Host string | All "nat list"

datatype outcome = Resolve string | Reject string

datatype 'a settle = Pending | Fulfilled 'a | Rejected string

record output_options =
  format :: string
  banner :: "string option"

record chunk =
  chunk_id :: string

record chunk_output =
  code :: string
  map_out :: source_map

record deferred =
  awaits :: nat
  yields :: chunk_output

subsection \<open>The plugin's closure and the host's side\<close>

text \<open>\<open>inputs\<close> and \<open>resolvedInputs\<close> are the two \<open>let\<close> variables of \<open>loader\<close>
  (\<open>None\<close> is \<open>undefined\<close>). \<open>resolveId_calls\<close> logs the arguments of every call of
  \<open>this.resolveId\<close>, and \<open>settled\<close> the host's settlements in the order they happened.
  The host's \<open>resolveId\<close> hands back a pending promise and does not throw; whether and how
  that promise settles is the host's business, later.\<close>

record world =
  inputs :: jsval
  resolvedInputs :: "nat option"
  promises :: "promise list"
  resolveId_calls :: "string list"
  settled :: "(nat \<times> outcome) list"

definition loader :: world where
  "loader = \<lparr>inputs = Undefined, resolvedInputs = None, promises = [],
             resolveId_calls = [], settled = []\<rparr>"

definition options :: "jsval \<Rightarrow> world \<Rightarrow> unit result \<times> world" where
  "options input w =
     (let inputs1 = input;
          inputs2 = (if typeof inputs1 = ''string''
                     then (case inputs1 of Str s \<Rightarrow> Arr [s] | _ \<Rightarrow> inputs1)
                     else inputs1)
      in if typeof inputs2 = ''object''
         then (case Object_values inputs2 of
                 Inl e \<Rightarrow> (Inl e, w\<lparr>inputs := inputs2\<rparr>)
               | Inr vs \<Rightarrow> (Inr (), w\<lparr>inputs := Arr vs\<rparr>))
         else (Inr (), w\<lparr>inputs := inputs2\<rparr>))"

definition alloc :: "promise \<Rightarrow> world \<Rightarrow> nat \<times> world" where
  "alloc p w = (length (promises w), w\<lparr>promises := promises w @ [p]\<rparr>)"

definition resolveId :: "string \<Rightarrow> world \<Rightarrow> nat \<times> world" where
  "resolveId s w =
     (let (h, w1) = alloc (Host s) w
      in (h, w1\<lparr>resolveId_calls := resolveId_calls w1 @ [s]\<rparr>))"

fun map_resolveId :: "string list \<Rightarrow> world \<Rightarrow> nat list \<times> world" where
  "map_resolveId [] w = ([], w)"
| "map_resolveId (s # ss) w =
     (let (h, w1) = resolveId s w;
          (hs, w2) = map_resolveId ss w1
      in (h # hs, w2))"

definition Promise_all :: "nat list \<Rightarrow> world \<Rightarrow> nat \<times> world" where
  "Promise_all hs w = alloc (All hs) w"

definition format_message :: string where
  "format_message = ''You must set output.format to 'amd'' @ [CHR 0x27]"

text \<open>The source writes the apostrophe of the banner message as U+2019; here it is the
  three bytes of its UTF-8 form.\<close>

definition banner_message :: string where
  "banner_message =
     ''Loadz0r currently doesn'' @ [CHR 0xE2, CHR 0x80, CHR 0x99]
     @ ''t work with `banner`. Feel free to submit a PR at https://github.com/surma/rollup-plugin-loadz0r''"

definition module_id :: "chunk \<Rightarrow> string" where
  "module_id c = ''./'' @ chunk_id c"

text \<open>Lines 75 to 77: \<open>if (!resolvedInputs) resolvedInputs = Promise.all(inputs.map(id =>
  this.resolveId(id)))\<close>. A promise is truthy whatever its state. \<open>inputs.map\<close> is a
  \<open>TypeError\<close> unless \<open>inputs\<close> is an array.\<close>

definition resolve_once :: "world \<Rightarrow> nat result \<times> world" where
  "resolve_once w =
     (case resolvedInputs w of
        Some p \<Rightarrow> (Inr p, w)
      | None \<Rightarrow>
          (case inputs w of
             Arr xs \<Rightarrow>
               (let (hs, w1) = map_resolveId xs w;
                    (p, w2) = Promise_all hs w1
                in (Inr p, w2\<lparr>resolvedInputs := Some p\<rparr>))
           | _ \<Rightarrow> (Inl TypeError, w)))"

definition transformChunk ::
    "string \<Rightarrow> output_options \<Rightarrow> chunk \<Rightarrow> world \<Rightarrow> deferred result \<times> world" where
  "transformChunk c outputOptions ch w =
     (if format outputOptions \<noteq> ''amd'' then (Inl (Error format_message), w)
      else if (case banner outputOptions of None \<Rightarrow> False | Some b \<Rightarrow> b \<noteq> [] \<and> 0 < length b)
      then (Inl (Error banner_message), w)
      else
        (case remove 0 (length ''define('') (MagicString c) of
           Inl e \<Rightarrow> (Inl e, w)
         | Inr m1 \<Rightarrow>
             (let m2 = (if \<not> startsWith c ''define(['' then prepend ''[],'' m1 else m1);
                  magicCode = prepend (''define(\"'' @ module_id ch @ ''\",'') m2
              in case resolve_once w of
                   (Inl e, w1) \<Rightarrow> (Inl e, w1)
                 | (Inr p, w1) \<Rightarrow>
                     (Inr \<lparr>awaits = p,
                           yields = \<lparr>code = toString magicCode,
                                     map_out = generateMap True magicCode\<rparr>\<rparr>, w1))))"

subsection \<open>Settlement\<close>

text \<open>The host settles a pending promise of its own once; anything else is ignored.\<close>

definition host_settles :: "nat \<Rightarrow> outcome \<Rightarrow> world \<Rightarrow> world" where
  "host_settles h oc w =
     (if h < length (promises w) \<and> map_of (settled w) h = None
      then (case promises w ! h of
              Host s \<Rightarrow> w\<lparr>settled := settled w @ [(h, oc)]\<rparr>
            | All hs \<Rightarrow> w)
      else w)"

definition host_state :: "world \<Rightarrow> nat \<Rightarrow> string settle" where
  "host_state w h =
     (case map_of (settled w) h of
        None \<Rightarrow> Pending
      | Some (Resolve v) \<Rightarrow> Fulfilled v
      | Some (Reject e) \<Rightarrow> Rejected e)"

text \<open>\<open>Promise.all\<close> rejects with the first rejection among its members, in the order the
  rejections happened, and fulfils with the list of values once every member has one.\<close>

fun first_rejection :: "nat list \<Rightarrow> (nat \<times> outcome) list \<Rightarrow> string option" where
  "first_rejection hs [] = None"
| "first_rejection hs ((h, Reject e) # log) =
     (if h \<in> set hs then Some e else first_rejection hs log)"
| "first_rejection hs ((h, Resolve v) # log) = first_rejection hs log"

definition fulfilled_value :: "world \<Rightarrow> nat \<Rightarrow> string option" where
  "fulfilled_value w h = (case host_state w h of Fulfilled v \<Rightarrow> Some v | _ \<Rightarrow> None)"

definition all_state :: "world \<Rightarrow> nat list \<Rightarrow> jsval settle" where
  "all_state w hs =
     (case first_rejection hs (settled w) of
        Some e \<Rightarrow> Rejected e
      | None \<Rightarrow>
          (case those (map (fulfilled_value w) hs) of
             Some vs \<Rightarrow> Fulfilled (Arr vs)
           | None \<Rightarrow> Pending))"

definition promise_state :: "world \<Rightarrow> nat \<Rightarrow> jsval settle" where
  "promise_state w p =
     (if p < length (promises w)
      then (case promises w ! p of
              Host s \<Rightarrow> (case host_state w p of
                           Pending \<Rightarrow> Pending
                         | Fulfilled v \<Rightarrow> Fulfilled (Str v)
                         | Rejected e \<Rightarrow> Rejected e)
            | All hs \<Rightarrow> all_state w hs)
      else Pending)"

text \<open>\<open>resolvedInputs.then(inputs => {code, map})\<close>: the callback ignores its argument, so
  the promise fulfils with the callback's value when the awaited promise fulfils and
  rejects with its reason when it rejects.\<close>

definition deferred_state :: "world \<Rightarrow> deferred \<Rightarrow> chunk_output settle" where
  "deferred_state w d =
     (case promise_state w (awaits d) of
        Pending \<Rightarrow> Pending
      | Fulfilled v \<Rightarrow> Fulfilled (yields d)
      | Rejected e \<Rightarrow> Rejected e)"

subsection \<open>A build: calls of \<open>transformChunk\<close> interleaved with settlements\<close>

datatype event =
    TransformChunk string output_options chunk
  | Settles nat outcome

fun step :: "event \<Rightarrow> world \<Rightarrow> deferred result list \<times> world" where
  "step (TransformChunk c oo ch) w = (let (r, w1) = transformChunk c oo ch w in ([r], w1))"
| "step (Settles h oc) w = ([], host_settles h oc w)"

fun run :: "event list \<Rightarrow> world \<Rightarrow> deferred result list \<times> world" where
  "run [] w = ([], w)"
| "run (e # es) w =
     (let (rs1, w1) = step e w;
          (rs2, w2) = run es w1
      in (rs1 @ rs2, w2))"

subsection \<open>The two phases of a build\<close>

text \<open>Before the first chunk gets past validation nothing has been resolved; afterwards
  the store holds one promise for each entry specifier and the one \<open>Promise.all\<close> over
  them, and it never grows again.\<close>

definition fresh :: "string list \<Rightarrow> world \<Rightarrow> bool" where
  "fresh xs w =
     (inputs w = Arr xs \<and> resolvedInputs w = None \<and> promises w = []
      \<and> resolveId_calls w = [] \<and> settled w = [])"

definition resolving :: "string list \<Rightarrow> world \<Rightarrow> bool" where
  "resolving xs w =
     (inputs w = Arr xs \<and> resolvedInputs w = Some (length xs)
      \<and> promises w = map Host xs @ [All [0..<length xs]]
      \<and> resolveId_calls w = xs
      \<and> list_all (\<lambda>(h, oc). h < length xs) (settled w))"

text \<open>The closure after the host has announced the single entry point
  \<open>src/index.js\<close>.\<close>

definition captured :: world where
  "captured = snd (options (Str ''src/index.js'') loader)"

text \<open>Three example builds over that closure: two chunks transformed before the host
  resolves the entry point; one chunk transformed and the resolution then rejected; and a
  chunk transformed after that.\<close>

definition amd :: output_options where
  "amd = \<lparr>format = ''amd'', banner = None\<rparr>"

definition two_calls :: "event list" where
  "two_calls =
     [TransformChunk ''define(['./dep'],function(d){})'' amd \<lparr>chunk_id = ''main''\<rparr>,
      TransformChunk ''define(function(){})'' amd \<lparr>chunk_id = ''dep''\<rparr>,
      Settles 0 (Resolve ''/src/index.js'')]"

definition failing_build :: "event list" where
  "failing_build =
     [TransformChunk ''define(['./dep'],function(d){})'' amd \<lparr>chunk_id = ''main''\<rparr>,
      Settles 0 (Reject ''not found'')]"

definition later_call :: "event list" where
  "later_call = [TransformChunk ''define(function(){})'' amd \<lparr>chunk_id = ''dep''\<rparr>]"

section \<open>The text rewrite\<close>

lemma define_length: "length ''define('' = 7"
  by simp

lemma remove_prefix:
  "0 < n \<Longrightarrow> n \<le> length c \<Longrightarrow>
   remove 0 n (MagicString c) =
     Inr \<lparr>original = c, intro = [], outro = [],
          kept = replicate n False @ replicate (length c - n) True\<rparr>"
  by (simp add: remove_def MagicString_def)

lemma remove_beyond:
  "length c < n \<Longrightarrow> remove 0 n (MagicString c) = Inl (Error ''Character is out of bounds'')"
  by (simp add: remove_def MagicString_def)

lemma surviving_text:
  assumes n: "n \<le> length c"
  shows "map fst (filter snd (zip c (replicate n False @ replicate (length c - n) True)))
         = drop n c"
proof -
  have a: "filter snd (zip (take n c) (replicate n False)) = []"
    by (auto simp: filter_empty_conv dest: set_zip_rightD)
  have b: "filter snd (zip (drop n c) (replicate (length c - n) True))
           = zip (drop n c) (replicate (length c - n) True)"
    by (auto simp: filter_id_conv dest: set_zip_rightD)
  have "zip c (replicate n False @ replicate (length c - n) True)
        = zip (take n c) (replicate n False) @ zip (drop n c) (replicate (length c - n) True)"
    using n by (simp add: zip_append2)
  then show ?thesis using a b by simp
qed

lemma startsWith_length: "startsWith c p \<Longrightarrow> length p \<le> length c"
proof -
  assume "startsWith c p"
  then have "length (take (length p) c) = length p"
    by (simp add: startsWith_def)
  then show ?thesis by simp
qed

lemma toString_rewritten:
  assumes "n \<le> length c"
  shows "toString (prepend a (prepend b \<lparr>original = c, intro = [], outro = [],
          kept = replicate n False @ replicate (length c - n) True\<rparr>)) = a @ b @ drop n c"
    and "toString (prepend a \<lparr>original = c, intro = [], outro = [],
          kept = replicate n False @ replicate (length c - n) True\<rparr>) = a @ drop n c"
  using surviving_text [OF assms] by (simp_all add: toString_def prepend_def)

lemma transformChunk_format:
  "format oo \<noteq> ''amd'' \<Longrightarrow> transformChunk c oo ch w = (Inl (Error format_message), w)"
  by (simp add: transformChunk_def)

lemma transformChunk_banner:
  "format oo = ''amd'' \<Longrightarrow> banner oo = Some b \<Longrightarrow> b \<noteq> [] \<Longrightarrow>
   transformChunk c oo ch w = (Inl (Error banner_message), w)"
  by (simp add: transformChunk_def)

lemma transformChunk_short:
  assumes "format oo = ''amd''" and "banner oo = None \<or> banner oo = Some []"
    and "length c < 7"
  shows "transformChunk c oo ch w = (Inl (Error ''Character is out of bounds''), w)"
proof -
  have "remove 0 (length ''define('') (MagicString c) = Inl (Error ''Character is out of bounds'')"
    unfolding define_length using assms(3) by (rule remove_beyond)
  then show ?thesis
    using assms(1,2) unfolding transformChunk_def by auto
qed

lemma transformChunk_rewrites:
  assumes "format oo = ''amd''" and "banner oo = None \<or> banner oo = Some []"
    and "7 \<le> length c"
  shows "\<exists>m. transformChunk c oo ch w =
           (case resolve_once w of
              (Inl e, w1) \<Rightarrow> (Inl e, w1)
            | (Inr p, w1) \<Rightarrow>
                (Inr \<lparr>awaits = p,
                      yields = \<lparr>code = ''define(\"'' @ module_id ch @ ''\",''
                                        @ (if startsWith c ''define(['' then [] else ''[],'')
                                        @ drop 7 c,
                                map_out = m\<rparr>\<rparr>, w1))"
proof -
  have r: "remove 0 (length ''define('') (MagicString c) =
         Inr \<lparr>original = c, intro = [], outro = [],
              kept = replicate 7 False @ replicate (length c - 7) True\<rparr>"
    unfolding define_length using assms(3) by (simp add: remove_prefix)
  have b: "(case banner oo of None \<Rightarrow> False | Some b \<Rightarrow> b \<noteq> [] \<and> 0 < length b) = False"
    using assms(2) by auto
  show ?thesis
    unfolding transformChunk_def r b using assms(1) toString_rewritten [OF assms(3)]
    by (cases "resolve_once w"; cases "fst (resolve_once w)")
       (auto simp: Let_def)
qed

section \<open>Resolving the entry points once\<close>

lemma map_resolveId_eq:
  "map_resolveId xs w =
     ([length (promises w)..<length (promises w) + length xs],
      w\<lparr>promises := promises w @ map Host xs,
        resolveId_calls := resolveId_calls w @ xs\<rparr>)"
proof (induction xs arbitrary: w)
  case Nil
  show ?case by simp
next
  case (Cons x xs)
  show ?case
    by (simp add: Cons.IH resolveId_def alloc_def upt_conv_Cons del: upt_Suc)
qed

lemma resolve_once_cached:
  "resolvedInputs w = Some p \<Longrightarrow> resolve_once w = (Inr p, w)"
  by (simp add: resolve_once_def)

lemma resolve_once_first:
  assumes "resolvedInputs w = None" and "inputs w = Arr xs"
  shows "resolve_once w =
           (Inr (length (promises w) + length xs),
            w\<lparr>promises := promises w @ map Host xs
                   @ [All [length (promises w)..<length (promises w) + length xs]],
              resolveId_calls := resolveId_calls w @ xs,
              resolvedInputs := Some (length (promises w) + length xs)\<rparr>)"
  using assms by (simp add: resolve_once_def map_resolveId_eq Promise_all_def alloc_def)

lemma resolve_once_no_array:
  assumes "resolvedInputs w = None" and "\<forall>xs. inputs w \<noteq> Arr xs"
  shows "resolve_once w = (Inl TypeError, w)"
  using assms by (cases "inputs w") (simp_all add: resolve_once_def)

lemma resolve_once_fresh:
  assumes "fresh xs w"
  shows "\<exists>w1. resolve_once w = (Inr (length xs), w1) \<and> resolving xs w1"
  using assms resolve_once_first [of w xs]
  by (simp add: fresh_def resolving_def)

lemma resolve_once_resolving:
  assumes "resolving xs w"
  shows "resolve_once w = (Inr (length xs), w)"
  using assms by (simp add: resolving_def resolve_once_cached)

lemma host_settles_fresh: "fresh xs w \<Longrightarrow> host_settles h oc w = w"
  by (simp add: fresh_def host_settles_def)

lemma host_settles_resolving:
  assumes "resolving xs w"
  shows "resolving xs (host_settles h oc w)"
proof (cases "h < length xs")
  case True
  then show ?thesis
    using assms
    by (auto simp: resolving_def host_settles_def nth_append split: promise.splits)
next
  case False
  then have "h = length xs \<or> \<not> h < length (promises w)"
    using assms by (auto simp: resolving_def)
  then show ?thesis
    using assms
    by (auto simp: resolving_def host_settles_def nth_append split: promise.splits)
qed

lemma host_settles_log: "set (settled w) \<subseteq> set (settled (host_settles h oc w))"
  by (auto simp: host_settles_def split: promise.splits)

section \<open>What one call of \<open>transformChunk\<close> does\<close>

lemma transformChunk_returns:
  assumes "transformChunk c oo ch w = (Inr d, w')"
  shows "format oo = ''amd''" and "banner oo = None \<or> banner oo = Some []"
    and "7 \<le> length c" and "resolve_once w = (Inr (awaits d), w')"
    and "code (yields d) = ''define(\"'' @ module_id ch @ ''\",''
           @ (if startsWith c ''define(['' then [] else ''[],'') @ drop 7 c"
proof -
  show f: "format oo = ''amd''"
    using assms transformChunk_format [of oo c ch w] by (cases "format oo = ''amd''") auto
  show b: "banner oo = None \<or> banner oo = Some []"
  proof (cases "banner oo")
    case None
    then show ?thesis by simp
  next
    case (Some b)
    then show ?thesis
      using assms f transformChunk_banner [of oo b c ch w] by (cases "b = []") auto
  qed
  show l: "7 \<le> length c"
    using assms transformChunk_short [OF f b, of c ch w] by (cases "length c < 7") auto
  obtain m where m: "transformChunk c oo ch w =
           (case resolve_once w of
              (Inl e, w1) \<Rightarrow> (Inl e, w1)
            | (Inr p, w1) \<Rightarrow>
                (Inr \<lparr>awaits = p,
                      yields = \<lparr>code = ''define(\"'' @ module_id ch @ ''\",''
                                        @ (if startsWith c ''define(['' then [] else ''[],'')
                                        @ drop 7 c,
                                map_out = m\<rparr>\<rparr>, w1))"
    using transformChunk_rewrites [OF f b l, of ch w] by blast
  show "resolve_once w = (Inr (awaits d), w')"
    using assms m by (cases "resolve_once w"; cases "fst (resolve_once w)") auto
  show "code (yields d) = ''define(\"'' @ module_id ch @ ''\",''
           @ (if startsWith c ''define(['' then [] else ''[],'') @ drop 7 c"
    using assms m by (cases "resolve_once w"; cases "fst (resolve_once w)") auto
qed

lemma resolve_once_ready:
  assumes "resolvedInputs w \<noteq> None \<or> inputs w = Arr xs"
  shows "\<exists>p w1. resolve_once w = (Inr p, w1)"
proof (cases "resolvedInputs w")
  case None
  then show ?thesis using assms resolve_once_first [of w xs] by auto
next
  case (Some p)
  then show ?thesis by (simp add: resolve_once_cached)
qed

lemma transformChunk_ready:
  assumes "format oo = ''amd''" and "banner oo = None \<or> banner oo = Some []"
    and "7 \<le> length c" and "resolvedInputs w \<noteq> None \<or> inputs w = Arr xs"
  shows "\<exists>d w'. transformChunk c oo ch w = (Inr d, w')
           \<and> code (yields d) = ''define(\"'' @ module_id ch @ ''\",''
                @ (if startsWith c ''define(['' then [] else ''[],'') @ drop 7 c"
proof -
  obtain p w1 where r: "resolve_once w = (Inr p, w1)"
    using resolve_once_ready [OF assms(4)] by blast
  show ?thesis
    using transformChunk_rewrites [OF assms(1,2,3), of ch w] r by auto
qed

lemma startsWith_split: "startsWith c p \<Longrightarrow> \<exists>rest. c = p @ rest"
  unfolding startsWith_def by (metis append_take_drop_id)

text \<open>C1. A chunk whose code begins with \<open>define([\<close>, transformed with format \<open>amd\<close> and no
  banner once the entry points are captured, comes back as the same text with the leading
  \<open>define(\<close> replaced by \<open>define("./<chunk id>",\<close>: everything from the opening bracket of
  the dependency array on is the original text.\<close>

theorem transformChunk_keeps_dependency_array:
  assumes "startsWith c ''define([''"
    and "format oo = ''amd''" and "banner oo = None \<or> banner oo = Some []"
    and "resolvedInputs w \<noteq> None \<or> inputs w = Arr xs"
  shows "\<exists>d w' rest. transformChunk c oo ch w = (Inr d, w')
           \<and> c = ''define(['' @ rest
           \<and> code (yields d) = ''define(\"./'' @ chunk_id ch @ ''\",['' @ rest"
proof -
  obtain rest where c: "c = ''define(['' @ rest"
    using startsWith_split [OF assms(1)] by blast
  have l: "7 \<le> length c"
    by (simp add: c)
  have r: "drop 7 c = ''['' @ rest"
    by (simp add: c)
  obtain d w' where t: "transformChunk c oo ch w = (Inr d, w')"
    and o: "code (yields d) = ''define(\"'' @ module_id ch @ ''\",''
                @ (if startsWith c ''define(['' then [] else ''[],'') @ drop 7 c"
    using transformChunk_ready [OF assms(2,3) l assms(4), of ch] by blast
  have "code (yields d) = ''define(\"./'' @ chunk_id ch @ ''\",['' @ rest"
    unfolding o r using assms(1) by (simp add: module_id_def)
  then show ?thesis using t c by blast
qed

text \<open>C2. A chunk whose code begins with \<open>define(\<close> but not with \<open>define([\<close> comes back as
  \<open>define("./<chunk id>",[],\<close> followed by the original text after \<open>define(\<close>: the empty
  array stands right after the module name.\<close>

theorem transformChunk_adds_empty_dependency_array:
  assumes "startsWith c ''define(''" and "\<not> startsWith c ''define([''"
    and "format oo = ''amd''" and "banner oo = None \<or> banner oo = Some []"
    and "resolvedInputs w \<noteq> None \<or> inputs w = Arr xs"
  shows "\<exists>d w' rest. transformChunk c oo ch w = (Inr d, w')
           \<and> c = ''define('' @ rest
           \<and> code (yields d) = ''define(\"./'' @ chunk_id ch @ ''\",[],'' @ rest"
proof -
  obtain rest where c: "c = ''define('' @ rest"
    using startsWith_split [OF assms(1)] by blast
  have l: "7 \<le> length c"
    by (simp add: c)
  have r: "drop 7 c = rest"
    by (simp add: c)
  obtain d w' where t: "transformChunk c oo ch w = (Inr d, w')"
    and o: "code (yields d) = ''define(\"'' @ module_id ch @ ''\",''
                @ (if startsWith c ''define(['' then [] else ''[],'') @ drop 7 c"
    using transformChunk_ready [OF assms(3,4) l assms(5), of ch] by blast
  have "code (yields d) = ''define(\"./'' @ chunk_id ch @ ''\",[],'' @ rest"
    unfolding o r using assms(2) by (simp add: module_id_def)
  then show ?thesis using t c by blast
qed

lemma captured_eq:
  "captured = \<lparr>inputs = Arr [''src/index.js''], resolvedInputs = None, promises = [],
               resolveId_calls = [], settled = []\<rparr>"
  by (simp add: captured_def options_def loader_def)

theorem transformChunk_keeps_dependency_array_witness:
  "startsWith ''define(['./dep'],function(d){})'' ''define([''
   \<and> (\<exists>d w'. transformChunk ''define(['./dep'],function(d){})''
                   \<lparr>format = ''amd'', banner = None\<rparr> \<lparr>chunk_id = ''foo/bar''\<rparr> captured
                 = (Inr d, w')
           \<and> code (yields d) = ''define(\"./foo/bar\",['./dep'],function(d){})'')"
  using transformChunk_keeps_dependency_array
    [of "''define(['./dep'],function(d){})''" "\<lparr>format = ''amd'', banner = None\<rparr>"
        captured "[''src/index.js'']" "\<lparr>chunk_id = ''foo/bar''\<rparr>"]
  by (simp add: startsWith_def captured_eq)

theorem transformChunk_adds_empty_dependency_array_witness:
  "startsWith ''define(function(){})'' ''define(''
   \<and> \<not> startsWith ''define(function(){})'' ''define([''
   \<and> (\<exists>d w'. transformChunk ''define(function(){})''
                   \<lparr>format = ''amd'', banner = Some []\<rparr> \<lparr>chunk_id = ''foo/bar''\<rparr> captured
                 = (Inr d, w')
           \<and> code (yields d) = ''define(\"./foo/bar\",[],function(){})'')"
  using transformChunk_adds_empty_dependency_array
    [of "''define(function(){})''" "\<lparr>format = ''amd'', banner = Some []\<rparr>"
        captured "[''src/index.js'']" "\<lparr>chunk_id = ''foo/bar''\<rparr>"]
  by (simp add: startsWith_def captured_eq)

text \<open>C4. With an output format other than \<open>amd\<close> the call throws the error whose message
  is \<open>You must set output.format to 'amd'\<close>: the result is the thrown error, not a promise,
  whatever the code is, and the closure and the promise store are as they were.\<close>

theorem transformChunk_requires_amd:
  "format oo \<noteq> ''amd'' \<Longrightarrow> transformChunk c oo ch w = (Inl (Error format_message), w)"
  by (rule transformChunk_format)

theorem transformChunk_requires_amd_witness:
  "format \<lparr>format = ''es'', banner = None\<rparr> \<noteq> ''amd''
   \<and> transformChunk ''define(function(){})'' \<lparr>format = ''es'', banner = None\<rparr>
        \<lparr>chunk_id = ''foo/bar''\<rparr> captured
      = (Inl (Error format_message), captured)"
  using transformChunk_requires_amd
    [of "\<lparr>format = ''es'', banner = None\<rparr>" "''define(function(){})''"
        "\<lparr>chunk_id = ''foo/bar''\<rparr>" captured]
  by simp

text \<open>C5. With a non-empty banner string the call throws, whatever the format is: the
  format error when the format is not \<open>amd\<close>, the banner error otherwise. Nothing is
  returned and nothing changes.\<close>

theorem transformChunk_rejects_banner:
  assumes "banner oo = Some b" and "b \<noteq> []"
  shows "transformChunk c oo ch w =
           (Inl (Error (if format oo = ''amd'' then banner_message else format_message)), w)"
  using assms transformChunk_format [of oo c ch w] transformChunk_banner [of oo b c ch w]
  by (cases "format oo = ''amd''") simp_all

theorem transformChunk_rejects_banner_witness:
  "banner \<lparr>format = ''amd'', banner = Some ''/* v1 */''\<rparr> = Some ''/* v1 */''
   \<and> ''/* v1 */'' \<noteq> []
   \<and> transformChunk ''define(function(){})'' \<lparr>format = ''amd'', banner = Some ''/* v1 */''\<rparr>
        \<lparr>chunk_id = ''foo/bar''\<rparr> captured
      = (Inl (Error banner_message), captured)"
  using transformChunk_rejects_banner
    [of "\<lparr>format = ''amd'', banner = Some ''/* v1 */''\<rparr>" "''/* v1 */''"
        "''define(function(){})''" "\<lparr>chunk_id = ''foo/bar''\<rparr>" captured]
  by simp

lemma messages_differ:
  "format_message \<noteq> banner_message"
  "banner_message \<noteq> ''Character is out of bounds''"
  by (simp_all add: format_message_def banner_message_def)

text \<open>C10. The format check comes first: with a format other than \<open>amd\<close> and a non-empty
  banner at once, the error thrown is the format error and not the banner error; and a call
  that throws the banner error had the format \<open>amd\<close>.\<close>

theorem format_check_precedes_banner_check:
  "(format oo \<noteq> ''amd'' \<and> banner oo = Some b \<and> b \<noteq> [] \<longrightarrow>
      fst (transformChunk c oo ch w) = Inl (Error format_message)
      \<and> fst (transformChunk c oo ch w) \<noteq> Inl (Error banner_message))
   \<and> (fst (transformChunk c oo ch w) = Inl (Error banner_message) \<longrightarrow> format oo = ''amd'')"
  using transformChunk_format [of oo c ch w] messages_differ
  by (cases "format oo = ''amd''") auto

theorem format_check_precedes_banner_check_witness:
  "(format \<lparr>format = ''es'', banner = Some ''/* v1 */''\<rparr> \<noteq> ''amd''
    \<and> banner \<lparr>format = ''es'', banner = Some ''/* v1 */''\<rparr> = Some ''/* v1 */''
    \<and> ''/* v1 */'' \<noteq> [])
   \<and> fst (transformChunk ''define(function(){})'' \<lparr>format = ''es'', banner = Some ''/* v1 */''\<rparr>
        \<lparr>chunk_id = ''foo/bar''\<rparr> captured) = Inl (Error format_message)
   \<and> fst (transformChunk ''define(function(){})'' \<lparr>format = ''es'', banner = Some ''/* v1 */''\<rparr>
        \<lparr>chunk_id = ''foo/bar''\<rparr> captured) \<noteq> Inl (Error banner_message)
   \<and> fst (transformChunk ''define(function(){})'' \<lparr>format = ''amd'', banner = Some ''/* v1 */''\<rparr>
        \<lparr>chunk_id = ''foo/bar''\<rparr> captured) = Inl (Error banner_message)
   \<and> format \<lparr>format = ''amd'', banner = Some ''/* v1 */''\<rparr> = ''amd''"
  using format_check_precedes_banner_check
    [of "\<lparr>format = ''es'', banner = Some ''/* v1 */''\<rparr>" "''/* v1 */''"
        "''define(function(){})''" "\<lparr>chunk_id = ''foo/bar''\<rparr>" captured]
    format_check_precedes_banner_check
    [of "\<lparr>format = ''amd'', banner = Some ''/* v1 */''\<rparr>" "''/* v1 */''"
        "''define(function(){})''" "\<lparr>chunk_id = ''foo/bar''\<rparr>" captured]
  by (simp add: transformChunk_def)

lemma startsWith_append: "startsWith c (p @ q) \<Longrightarrow> startsWith c p"
proof -
  assume "startsWith c (p @ q)"
  then obtain rest where "c = (p @ q) @ rest"
    using startsWith_split by blast
  then show ?thesis by (simp add: startsWith_def)
qed

text \<open>C6. The module identifier of a chunk is its id with \<open>./\<close> in front, so that the id
  \<open>foo/bar\<close> gives \<open>./foo/bar\<close>; and this is the name every rewritten chunk is registered
  under: whenever \<open>transformChunk\<close> returns, the code begins with \<open>define("./<chunk id>",\<close>.\<close>

theorem module_id_prefixes_chunk_id:
  "module_id ch = ''./'' @ chunk_id ch
   \<and> module_id \<lparr>chunk_id = ''foo/bar''\<rparr> = ''./foo/bar''
   \<and> (\<forall>d w'. transformChunk c oo ch w = (Inr d, w') \<longrightarrow>
         startsWith (code (yields d)) (''define(\"'' @ ''./'' @ chunk_id ch @ ''\",''))"
proof -
  have "startsWith (code (yields d)) (''define(\"'' @ ''./'' @ chunk_id ch @ ''\",'')"
    if "transformChunk c oo ch w = (Inr d, w')" for d w'
    using transformChunk_returns(5) [OF that] by (simp add: startsWith_def module_id_def)
  then show ?thesis by (simp add: module_id_def)
qed

theorem module_id_prefixes_chunk_id_witness:
  "module_id \<lparr>chunk_id = ''foo/bar''\<rparr> = ''./foo/bar''
   \<and> (\<exists>d w'. transformChunk ''define(function(){})'' \<lparr>format = ''amd'', banner = None\<rparr>
                 \<lparr>chunk_id = ''foo/bar''\<rparr> captured = (Inr d, w')
          \<and> startsWith (code (yields d)) ''define(\"./foo/bar\",'')"
proof -
  obtain d w' where t: "transformChunk ''define(function(){})''
      \<lparr>format = ''amd'', banner = None\<rparr> \<lparr>chunk_id = ''foo/bar''\<rparr> captured = (Inr d, w')"
    using transformChunk_ready
      [of "\<lparr>format = ''amd'', banner = None\<rparr>" "''define(function(){})''" captured
          "[''src/index.js'']" "\<lparr>chunk_id = ''foo/bar''\<rparr>"]
    by (auto simp: captured_eq)
  have "module_id \<lparr>chunk_id = ''foo/bar''\<rparr> = ''./foo/bar''
        \<and> startsWith (code (yields d)) ''define(\"./foo/bar\",''"
    using module_id_prefixes_chunk_id
      [of "\<lparr>chunk_id = ''foo/bar''\<rparr>" "''define(function(){})''"
          "\<lparr>format = ''amd'', banner = None\<rparr>" captured] t
    by simp
  then show ?thesis using t by blast
qed

lemma own_property_values_names:
  assumes "\<forall>kv\<in>set kvs. \<not> is_array_index (fst kv)"
  shows "own_property_values kvs = map snd kvs"
proof -
  have "filter (\<lambda>kv. is_array_index (fst kv)) kvs = []"
    using assms by (simp add: filter_empty_conv)
  moreover have "filter (\<lambda>kv. \<not> is_array_index (fst kv)) kvs = kvs"
    using assms by (simp add: filter_id_conv)
  ultimately show ?thesis by (simp add: own_property_values_def)
qed

lemma options_names:
  assumes "\<forall>kv\<in>set kvs. \<not> is_array_index (fst kv)"
  shows "options (Obj kvs) w = (Inr (), w\<lparr>inputs := Arr (map snd kvs)\<rparr>)"
  by (simp add: options_def own_property_values_names [OF assms])

lemma not_index_a_b: "\<not> is_array_index ''a''" "\<not> is_array_index ''b''"
  by (simp_all add: is_array_index_def is_digit_def)

lemma own_property_values_all:
  "set (own_property_values kvs) = snd ` set kvs"
  "length (own_property_values kvs) = length kvs"
proof -
  show "set (own_property_values kvs) = snd ` set kvs"
    by (auto simp: own_property_values_def)
  show "length (own_property_values kvs) = length kvs"
    by (simp add: own_property_values_def sum_length_filter_compl)
qed

text \<open>C7. The \<open>options\<close> hook captures a single string as the list of that one string
  (\<open>src/index.js\<close> as \<open>[src/index.js]\<close>) and a list of strings as it is. Of a mapping it
  captures the values without the keys, as many as there are properties; for every mapping
  none of whose keys is an array index, as output names are, the values come in insertion
  order, so that \<open>{a: x.js, b: y.js}\<close> is captured as \<open>[x.js, y.js]\<close>. Nothing else of the
  closure changes and nothing is thrown.\<close>

theorem options_captures_entry_list:
  "options (Str s) w = (Inr (), w\<lparr>inputs := Arr [s]\<rparr>)
   \<and> options (Str ''src/index.js'') w = (Inr (), w\<lparr>inputs := Arr [''src/index.js'']\<rparr>)
   \<and> ((\<forall>kv\<in>set kvs. \<not> is_array_index (fst kv)) \<longrightarrow>
        options (Obj kvs) w = (Inr (), w\<lparr>inputs := Arr (map snd kvs)\<rparr>))
   \<and> (\<exists>vs. options (Obj kvs) w = (Inr (), w\<lparr>inputs := Arr vs\<rparr>)
          \<and> set vs = snd ` set kvs \<and> length vs = length kvs)
   \<and> options (Obj [(''a'', ''x.js''), (''b'', ''y.js'')]) w
       = (Inr (), w\<lparr>inputs := Arr [''x.js'', ''y.js'']\<rparr>)
   \<and> options (Arr xs) w = (Inr (), w\<lparr>inputs := Arr xs\<rparr>)"
proof -
  have names: "options (Obj kvs) w = (Inr (), w\<lparr>inputs := Arr (map snd kvs)\<rparr>)"
    if "\<forall>kv\<in>set kvs. \<not> is_array_index (fst kv)"
    using options_names [OF that] .
  have any: "\<exists>vs. options (Obj kvs) w = (Inr (), w\<lparr>inputs := Arr vs\<rparr>)
          \<and> set vs = snd ` set kvs \<and> length vs = length kvs"
  proof -
    have "options (Obj kvs) w = (Inr (), w\<lparr>inputs := Arr (own_property_values kvs)\<rparr>)"
      by (simp add: options_def)
    then show ?thesis
      using own_property_values_all [of kvs] by blast
  qed
  have ab: "options (Obj [(''a'', ''x.js''), (''b'', ''y.js'')]) w
       = (Inr (), w\<lparr>inputs := Arr [''x.js'', ''y.js'']\<rparr>)"
    using options_names [of "[(''a'', ''x.js''), (''b'', ''y.js'')]" w] not_index_a_b by simp
  have rest: "options (Str s) w = (Inr (), w\<lparr>inputs := Arr [s]\<rparr>)"
    "options (Str ''src/index.js'') w = (Inr (), w\<lparr>inputs := Arr [''src/index.js'']\<rparr>)"
    "options (Arr xs) w = (Inr (), w\<lparr>inputs := Arr xs\<rparr>)"
    by (simp_all add: options_def)
  show ?thesis using names any ab rest by blast
qed

theorem options_captures_entry_list_witness:
  "inputs (snd (options (Str ''src/index.js'') loader)) = Arr [''src/index.js'']
   \<and> \<not> is_array_index ''main'' \<and> \<not> is_array_index ''worker''
   \<and> inputs (snd (options (Obj [(''main'', ''src/main.js''), (''worker'', ''src/worker.js'')])
                     loader))
       = Arr [''src/main.js'', ''src/worker.js'']
   \<and> inputs (snd (options (Obj [(''a'', ''x.js''), (''b'', ''y.js'')]) loader))
       = Arr [''x.js'', ''y.js'']
   \<and> inputs (snd (options (Arr [''p.js'', ''q.js'']) loader)) = Arr [''p.js'', ''q.js'']"
proof -
  have n: "\<not> is_array_index ''main''" "\<not> is_array_index ''worker''"
    by (simp_all add: is_array_index_def is_digit_def)
  then have h: "\<forall>kv\<in>set [(''main'', ''src/main.js''), (''worker'', ''src/worker.js'')].
                 \<not> is_array_index (fst kv)"
    by simp
  show ?thesis
    using options_captures_entry_list
      [of "''src/index.js''" loader
          "[(''main'', ''src/main.js''), (''worker'', ''src/worker.js'')]"
          "[''p.js'', ''q.js'']"] h n
    by simp
qed

text \<open>Keys that are array indices come first, in numeric order, whatever the insertion
  order was: here the value inserted second is captured first.\<close>

lemma options_index_keys_first:
  "options (Obj [(''b'', ''x.js''), (''1'', ''y.js'')]) loader
     = (Inr (), loader\<lparr>inputs := Arr [''y.js'', ''x.js'']\<rparr>)"
  by (simp add: options_def own_property_values_def is_array_index_def is_digit_def
      numeric_value_def)

text \<open>C9, as amended. \<open>transformChunk\<close> never checks that the code begins with
  \<open>define(\<close>. For a code of at least seven characters that does not begin with it (format
  \<open>amd\<close>, no banner, entry points captured) nothing is thrown: the first seven characters are
  dropped and \<open>define("./<chunk id>",[],\<close> is put in front of the rest. For a shorter code the
  removal of the range from 0 to 7 is refused by \<open>MagicString\<close>: the call throws
  \<open>Character is out of bounds\<close> and returns nothing.\<close>

theorem transformChunk_does_not_check_prefix:
  assumes "\<not> startsWith c ''define(''"
    and "format oo = ''amd''" and "banner oo = None \<or> banner oo = Some []"
    and "resolvedInputs w \<noteq> None \<or> inputs w = Arr xs"
  shows "(7 \<le> length c \<longrightarrow>
            (\<exists>d w'. transformChunk c oo ch w = (Inr d, w')
               \<and> code (yields d) = ''define(\"./'' @ chunk_id ch @ ''\",[],'' @ drop 7 c))
         \<and> (length c < 7 \<longrightarrow>
            transformChunk c oo ch w = (Inl (Error ''Character is out of bounds''), w))"
proof -
  have n: "\<not> startsWith c ''define([''"
    using assms(1) startsWith_append [of c "''define(''" "''[''"] by auto
  have "\<exists>d w'. transformChunk c oo ch w = (Inr d, w')
               \<and> code (yields d) = ''define(\"./'' @ chunk_id ch @ ''\",[],'' @ drop 7 c"
    if "7 \<le> length c"
    using transformChunk_ready [OF assms(2,3) that assms(4), of ch] n
    by (simp add: module_id_def)
  then show ?thesis
    using transformChunk_short [OF assms(2,3), of c ch w] by blast
qed

theorem transformChunk_does_not_check_prefix_witness:
  "\<not> startsWith ''export default 1'' ''define(''
   \<and> \<not> startsWith ''abc'' ''define(''
   \<and> (\<exists>d w'. transformChunk ''export default 1'' \<lparr>format = ''amd'', banner = None\<rparr>
                 \<lparr>chunk_id = ''foo/bar''\<rparr> captured = (Inr d, w')
          \<and> code (yields d) = ''define(\"./foo/bar\",[],default 1'')
   \<and> transformChunk ''abc'' \<lparr>format = ''amd'', banner = None\<rparr> \<lparr>chunk_id = ''foo/bar''\<rparr> captured
       = (Inl (Error ''Character is out of bounds''), captured)"
  using transformChunk_does_not_check_prefix
    [of "''export default 1''" "\<lparr>format = ''amd'', banner = None\<rparr>" captured
        "[''src/index.js'']" "\<lparr>chunk_id = ''foo/bar''\<rparr>"]
    transformChunk_does_not_check_prefix
    [of "''abc''" "\<lparr>format = ''amd'', banner = None\<rparr>" captured
        "[''src/index.js'']" "\<lparr>chunk_id = ''foo/bar''\<rparr>"]
  by (simp add: startsWith_def captured_eq)

text \<open>C9 as it was stated fails for the three-character code \<open>abc\<close>: it does not begin
  with \<open>define(\<close>, the format is \<open>amd\<close> and there is no banner, yet the call throws.\<close>

theorem short_code_counterexample:
  "\<not> startsWith ''abc'' ''define(''
   \<and> format \<lparr>format = ''amd'', banner = None\<rparr> = ''amd''
   \<and> banner \<lparr>format = ''amd'', banner = None\<rparr> = None
   \<and> transformChunk ''abc'' \<lparr>format = ''amd'', banner = None\<rparr> \<lparr>chunk_id = ''foo/bar''\<rparr> captured
       = (Inl (Error ''Character is out of bounds''), captured)"
  by (simp add: startsWith_def transformChunk_def remove_def MagicString_def)

section \<open>A whole build\<close>

lemma options_fresh:
  assumes "options input loader = (r, w0)" and "inputs w0 = Arr xs"
  shows "fresh xs w0"
proof -
  have "\<exists>v. snd (options input loader) = loader\<lparr>inputs := v\<rparr>"
    by (auto simp: options_def Let_def split: sum.splits)
  then obtain v where "w0 = loader\<lparr>inputs := v\<rparr>"
    using assms(1) by auto
  then show ?thesis
    using assms(2) by (simp add: fresh_def loader_def)
qed

lemma call_cases:
  fixes c :: string and oo :: output_options
  obtains (fmt) "format oo \<noteq> ''amd''"
    | (ban) b where "format oo = ''amd''" "banner oo = Some b" "b \<noteq> []"
    | (short) "format oo = ''amd''" "banner oo = None \<or> banner oo = Some []" "length c < 7"
    | (ok) "format oo = ''amd''" "banner oo = None \<or> banner oo = Some []" "7 \<le> length c"
proof (cases "format oo = ''amd''")
  case False
  then show ?thesis using fmt by blast
next
  case f: True
  show ?thesis
  proof (cases "banner oo = None \<or> banner oo = Some []")
    case True
    then show ?thesis using f short ok by (cases "length c < 7") auto
  next
    case False
    then obtain b where "banner oo = Some b" "b \<noteq> []"
      by (cases "banner oo") auto
    then show ?thesis using f ban by blast
  qed
qed

lemma transformChunk_fresh:
  assumes "fresh xs w" and "transformChunk c oo ch w = (r, w')"
  shows "(isl r \<and> w' = w) \<or> (\<exists>d. r = Inr d \<and> awaits d = length xs \<and> resolving xs w')"
proof -
  show ?thesis
  proof (cases rule: call_cases [where oo = oo and c = c])
    case fmt
    then show ?thesis using assms(2) by (auto simp: transformChunk_format)
  next
    case ban
    then show ?thesis using assms(2) by (auto simp: transformChunk_banner)
  next
    case short
    then show ?thesis using assms(2) by (auto simp: transformChunk_short)
  next
    case ok
    obtain w1 where "resolve_once w = (Inr (length xs), w1)" "resolving xs w1"
      using resolve_once_fresh [OF assms(1)] by blast
    then show ?thesis
      using transformChunk_rewrites [OF ok, of ch w] assms(2) by auto
  qed
qed

lemma transformChunk_resolving:
  assumes "resolving xs w" and "transformChunk c oo ch w = (r, w')"
  shows "w' = w \<and> (\<forall>d. r = Inr d \<longrightarrow> awaits d = length xs)"
proof -
  show ?thesis
  proof (cases rule: call_cases [where oo = oo and c = c])
    case fmt
    then show ?thesis using assms(2) by (auto simp: transformChunk_format)
  next
    case ban
    then show ?thesis using assms(2) by (auto simp: transformChunk_banner)
  next
    case short
    then show ?thesis using assms(2) by (auto simp: transformChunk_short)
  next
    case ok
    then show ?thesis
      using transformChunk_rewrites [OF ok, of ch w] assms(2)
        resolve_once_resolving [OF assms(1)] by auto
  qed
qed

lemma run_resolving:
  assumes "resolving xs w" and "run evs w = (rs, w')"
  shows "resolving xs w' \<and> (\<forall>d. Inr d \<in> set rs \<longrightarrow> awaits d = length xs)
         \<and> set (settled w) \<subseteq> set (settled w')"
  using assms
proof (induction evs arbitrary: w rs)
  case Nil
  then show ?case by simp
next
  case (Cons e evs)
  obtain rs1 w1 where s: "step e w = (rs1, w1)"
    by (cases "step e w") auto
  obtain rs2 w2 where r: "run evs w1 = (rs2, w2)"
    by (cases "run evs w1") auto
  have eq: "rs = rs1 @ rs2" "w' = w2"
    using Cons.prems(2) s r by auto
  have one: "resolving xs w1 \<and> (\<forall>d. Inr d \<in> set rs1 \<longrightarrow> awaits d = length xs)
             \<and> set (settled w) \<subseteq> set (settled w1)"
  proof (cases e)
    case (TransformChunk c oo ch)
    obtain r0 where t: "transformChunk c oo ch w = (r0, w1)" and "rs1 = [r0]"
      using s TransformChunk by (cases "transformChunk c oo ch w") auto
    then show ?thesis
      using transformChunk_resolving [OF Cons.prems(1) t] Cons.prems(1) by auto
  next
    case (Settles h oc)
    then show ?thesis
      using s host_settles_resolving [OF Cons.prems(1), of h oc] host_settles_log [of w h oc]
      by auto
  qed
  then show ?case
    using Cons.IH [of w1 rs2] r eq by auto
qed

lemma run_fresh:
  assumes "fresh xs w" and "run evs w = (rs, w')"
  shows "(fresh xs w' \<and> (\<forall>d. Inr d \<notin> set rs))
         \<or> (resolving xs w' \<and> (\<exists>d. Inr d \<in> set rs)
             \<and> (\<forall>d. Inr d \<in> set rs \<longrightarrow> awaits d = length xs))"
  using assms
proof (induction evs arbitrary: w rs)
  case Nil
  then show ?case by simp
next
  case (Cons e evs)
  obtain rs1 w1 where s: "step e w = (rs1, w1)"
    by (cases "step e w") auto
  obtain rs2 w2 where r: "run evs w1 = (rs2, w2)"
    by (cases "run evs w1") auto
  have eq: "rs = rs1 @ rs2" "w' = w2"
    using Cons.prems(2) s r by auto
  have one: "(w1 = w \<and> (\<forall>d. Inr d \<notin> set rs1))
             \<or> (resolving xs w1 \<and> (\<exists>d. Inr d \<in> set rs1)
                 \<and> (\<forall>d. Inr d \<in> set rs1 \<longrightarrow> awaits d = length xs))"
  proof (cases e)
    case (TransformChunk c oo ch)
    obtain r0 where t: "transformChunk c oo ch w = (r0, w1)" and "rs1 = [r0]"
      using s TransformChunk by (cases "transformChunk c oo ch w") auto
    then show ?thesis
      using transformChunk_fresh [OF Cons.prems(1) t] by auto
  next
    case (Settles h oc)
    then show ?thesis
      using s host_settles_fresh [OF Cons.prems(1), of h oc] by auto
  qed
  then show ?case
  proof
    assume "w1 = w \<and> (\<forall>d. Inr d \<notin> set rs1)"
    then show ?thesis
      using Cons.IH [of w rs2] Cons.prems(1) r eq by auto
  next
    assume a: "resolving xs w1 \<and> (\<exists>d. Inr d \<in> set rs1)
                 \<and> (\<forall>d. Inr d \<in> set rs1 \<longrightarrow> awaits d = length xs)"
    then show ?thesis
      using run_resolving [of xs w1 evs rs2 w2] r eq by auto
  qed
qed

lemmas run_defs =
  captured_eq two_calls_def failing_build_def later_call_def amd_def
  transformChunk_def remove_def MagicString_def resolve_once_def resolveId_def alloc_def
  Promise_all_def host_settles_def startsWith_def prepend_def Let_def

lemma run_append:
  "run (evs @ evs') w =
     (let (rs, w1) = run evs w; (rs', w2) = run evs' w1 in (rs @ rs', w2))"
  by (induction evs arbitrary: w) (auto split: prod.splits)

lemma first_rejection_found:
  "(h, Reject e) \<in> set log \<Longrightarrow> h \<in> set hs \<Longrightarrow> \<exists>e'. first_rejection hs log = Some e'"
  by (induction hs log rule: first_rejection.induct) auto

lemma those_all_Some:
  "those os = Some vs \<Longrightarrow> \<forall>x\<in>set os. \<exists>v. x = Some v"
  by (induction os arbitrary: vs) (auto split: option.splits)

lemma all_state_fulfilled:
  assumes "all_state w hs = Fulfilled v"
  shows "\<forall>h\<in>set hs. \<exists>s. host_state w h = Fulfilled s"
proof -
  obtain vs where "those (map (fulfilled_value w) hs) = Some vs"
    using assms by (auto simp: all_state_def split: option.splits)
  then have v: "\<forall>h\<in>set hs. \<exists>s. fulfilled_value w h = Some s"
    using those_all_Some by fastforce
  show ?thesis
  proof
    fix h assume "h \<in> set hs"
    then obtain s where "fulfilled_value w h = Some s"
      using v by blast
    then show "\<exists>s. host_state w h = Fulfilled s"
      by (cases "host_state w h") (auto simp: fulfilled_value_def)
  qed
qed

lemma all_state_rejected:
  assumes "(h, Reject e) \<in> set (settled w)" and "h \<in> set hs"
  shows "\<exists>e'. all_state w hs = Rejected e'"
  using first_rejection_found [OF assms] by (auto simp: all_state_def)

lemma promise_state_resolving:
  "resolving xs w \<Longrightarrow> promise_state w (length xs) = all_state w [0..<length xs]"
  by (simp add: resolving_def promise_state_def nth_append)

lemma settled_resolving:
  "resolving xs w \<Longrightarrow> (h, oc) \<in> set (settled w) \<Longrightarrow> h < length xs"
  by (auto simp: resolving_def list_all_iff)

text \<open>C3. Within one build, that is from the closure the \<open>options\<close> hook leaves and through
  any sequence of \<open>transformChunk\<close> calls and settlements in any order (two calls before
  anything settles included), \<open>this.resolveId\<close> has been called exactly once for each captured
  entry specifier, in their order, as soon as one call has returned, and not at all before;
  the store holds one \<open>Promise.all\<close> over those promises, and every result returned waits
  for that one promise.\<close>

theorem entry_resolution_happens_once:
  assumes "options input loader = (Inr (), w0)" and "inputs w0 = Arr xs"
    and "run evs w0 = (rs, w)"
  shows "resolveId_calls w = (if \<exists>d. Inr d \<in> set rs then xs else [])
         \<and> ((\<exists>d. Inr d \<in> set rs) \<longrightarrow>
              promises w = map Host xs @ [All [0..<length xs]]
              \<and> resolvedInputs w = Some (length xs))
         \<and> (\<forall>d. Inr d \<in> set rs \<longrightarrow> awaits d = length xs)"
  using run_fresh [OF options_fresh [OF assms(1,2)] assms(3)]
  by (auto simp: fresh_def resolving_def)

theorem entry_resolution_happens_once_witness:
  "options (Str ''src/index.js'') loader = (Inr (), captured)
   \<and> inputs captured = Arr [''src/index.js'']
   \<and> (\<exists>d1 d2. fst (run two_calls captured) = [Inr d1, Inr d2] \<and> awaits d1 = 1 \<and> awaits d2 = 1)
   \<and> resolveId_calls (snd (run two_calls captured)) = [''src/index.js'']
   \<and> promises (snd (run two_calls captured)) = [Host ''src/index.js'', All [0]]"
  using entry_resolution_happens_once
    [of "Str ''src/index.js''" captured "[''src/index.js'']" two_calls
        "fst (run two_calls captured)" "snd (run two_calls captured)"]
  by (simp add: run_defs options_def loader_def)

text \<open>C8. A call returns a promise, and that promise fulfils with its \<open>{code, map}\<close> only
  when every \<open>resolveId\<close> promise of the build has fulfilled. Once one of them has been
  rejected, every result of the build is rejected, those returned before the rejection and
  those returned by any later call alike.\<close>

theorem result_waits_for_entry_resolution:
  assumes "options input loader = (Inr (), w0)" and "inputs w0 = Arr xs"
    and "run evs w0 = (rs, w)" and "run evs' w = (rs', w')"
    and "Inr d \<in> set (rs @ rs')"
  shows "(\<forall>out. deferred_state w' d = Fulfilled out \<longrightarrow>
            out = yields d \<and> (\<forall>h<length xs. \<exists>v. host_state w' h = Fulfilled v))
         \<and> ((\<exists>h e. (h, Reject e) \<in> set (settled w)) \<longrightarrow>
              (\<exists>e. deferred_state w' d = Rejected e))"
proof -
  have f0: "fresh xs w0"
    using options_fresh [OF assms(1,2)] .
  have "run (evs @ evs') w0 = (rs @ rs', w')"
    using assms(3,4) by (simp add: run_append)
  then have r': "resolving xs w'" and a: "awaits d = length xs"
    using run_fresh [OF f0, of "evs @ evs'" "rs @ rs'" w'] assms(5) by blast+
  have p: "promise_state w' (awaits d) = all_state w' [0..<length xs]"
    using promise_state_resolving [OF r'] a by simp
  have one: "out = yields d \<and> (\<forall>h<length xs. \<exists>v. host_state w' h = Fulfilled v)"
    if "deferred_state w' d = Fulfilled out" for out
  proof (cases "all_state w' [0..<length xs]")
    case Pending
    then show ?thesis using that p by (simp add: deferred_state_def)
  next
    case (Fulfilled v)
    then show ?thesis
      using that p all_state_fulfilled [of w' "[0..<length xs]" v]
      by (auto simp: deferred_state_def)
  next
    case (Rejected e)
    then show ?thesis using that p by (simp add: deferred_state_def)
  qed
  have two: "\<exists>e'. deferred_state w' d = Rejected e'"
    if "(h, Reject e) \<in> set (settled w)" for h e
  proof -
    have "\<not> fresh xs w"
      using that by (auto simp: fresh_def)
    then have r: "resolving xs w"
      using run_fresh [OF f0 assms(3)] by blast
    then have "h < length xs"
      using settled_resolving that by blast
    moreover have "(h, Reject e) \<in> set (settled w')"
      using run_resolving [OF r assms(4)] that by blast
    ultimately obtain e' where "all_state w' [0..<length xs] = Rejected e'"
      using all_state_rejected [of h e w' "[0..<length xs]"] by auto
    then show ?thesis
      using p by (auto simp: deferred_state_def)
  qed
  show ?thesis using one two by blast
qed

theorem result_waits_for_entry_resolution_witness:
  "options (Str ''src/index.js'') loader = (Inr (), captured)
   \<and> inputs captured = Arr [''src/index.js'']
   \<and> (\<exists>d1 d2. fst (run two_calls captured) = [Inr d1, Inr d2]
         \<and> deferred_state (snd (run two_calls captured)) d1 = Fulfilled (yields d1)
         \<and> deferred_state (snd (run two_calls captured)) d2 = Fulfilled (yields d2))
   \<and> (\<exists>v. host_state (snd (run two_calls captured)) 0 = Fulfilled v)
   \<and> (0, Reject ''not found'') \<in> set (settled (snd (run failing_build captured)))
   \<and> (\<exists>d1 d2 e1 e2. fst (run failing_build captured) = [Inr d1]
         \<and> fst (run later_call (snd (run failing_build captured))) = [Inr d2]
         \<and> deferred_state (snd (run later_call (snd (run failing_build captured)))) d1
             = Rejected e1
         \<and> deferred_state (snd (run later_call (snd (run failing_build captured)))) d2
             = Rejected e2)"
proof -
  have o: "options (Str ''src/index.js'') loader = (Inr (), captured)"
    "inputs captured = Arr [''src/index.js'']"
    by (simp_all add: captured_eq options_def loader_def)
  obtain a1 a2 where a: "fst (run two_calls captured) = [Inr a1, Inr a2]"
    "deferred_state (snd (run two_calls captured)) a1 = Fulfilled (yields a1)"
    "deferred_state (snd (run two_calls captured)) a2 = Fulfilled (yields a2)"
    by (simp add: run_defs deferred_state_def promise_state_def all_state_def
        fulfilled_value_def host_state_def)
  have r1: "run two_calls captured = (fst (run two_calls captured), snd (run two_calls captured))"
    by simp
  have r2: "run [] (snd (run two_calls captured)) = ([], snd (run two_calls captured))"
    by simp
  have r3: "Inr a1 \<in> set (fst (run two_calls captured) @ [])"
    using a(1) by simp
  note r = r1 r2 r3
  have b: "\<exists>v. host_state (snd (run two_calls captured)) 0 = Fulfilled v"
    using result_waits_for_entry_resolution [OF o r] a(2) by auto
  have c: "(0, Reject ''not found'') \<in> set (settled (snd (run failing_build captured)))"
    by (simp add: run_defs)
  obtain d1 d2 where d: "fst (run failing_build captured) = [Inr d1]"
    "fst (run later_call (snd (run failing_build captured))) = [Inr d2]"
    by (simp add: run_defs)
  have q1: "run failing_build captured
            = (fst (run failing_build captured), snd (run failing_build captured))"
    by simp
  have q2: "run later_call (snd (run failing_build captured))
            = (fst (run later_call (snd (run failing_build captured))),
               snd (run later_call (snd (run failing_build captured))))"
    by simp
  have e: "\<exists>e. deferred_state (snd (run later_call (snd (run failing_build captured)))) x
               = Rejected e"
    if "x = d1 \<or> x = d2" for x
  proof -
    have q3: "Inr x \<in> set (fst (run failing_build captured)
                            @ fst (run later_call (snd (run failing_build captured))))"
      using that d by auto
    show ?thesis
      using result_waits_for_entry_resolution [OF o q1 q2 q3] c by blast
  qed
  obtain e1 e2 where
    "deferred_state (snd (run later_call (snd (run failing_build captured)))) d1 = Rejected e1"
    "deferred_state (snd (run later_call (snd (run failing_build captured)))) d2 = Rejected e2"
    using e [of d1] e [of d2] by auto
  then show ?thesis using o a b c d by blast
qed

end
